theory Spec2Isabelle
  imports Main "HOL-Library.Sublist"
begin

section \<open>The streaming client of pytwitter: \<open>StreamApi\<close>\<close>

text \<open>
  A shallow embedding of \<open>src/pytwitter/streaming.py\<close>. The controller object and the two
  local variables of \<open>_connect\<close> form one record that is passed through every function.
  Everything the controller does to the outside world (opening a connection, invoking a
  callback, sleeping, logging, closing the session) is appended to a trace, in the order
  in which the statements of the source run. The outside world (what the server answers,
  what the user's callbacks do, when another thread calls \<open>disconnect\<close>) is a finite
  script that the connect loop consumes one connection attempt at a time.
\<close>

subsection \<open>Values\<close>

text \<open>The values \<open>json.loads\<close> produces. A number is never iterable or subscriptable,
  whatever its value, so one constructor stands for Python's int and float.\<close>

datatype json =
    JNull
  | JBool bool
  | JNum int
  | JStr string
  | JArr "json list"
  | JObj "(string \<times> json) list"

text \<open>Exceptions. \<open>PyTwitterError\<close> carries its argument: a message, or the value of
  \<open>data["errors"]\<close>. \<open>KeyboardInterrupt\<close> and \<open>SystemExit\<close> derive from
  \<open>BaseException\<close> only; every other class here derives from \<open>Exception\<close>.\<close>

datatype exn =
    PyTwitterError "string + json"
  | JSONDecodeError
  | TypeError
  | KeyError string
  | RequestException
  | RuntimeError string
  | KeyboardInterrupt
  | SystemExit

fun is_Exception :: "exn \<Rightarrow> bool" where
  "is_Exception KeyboardInterrupt = False"
| "is_Exception SystemExit = False"
| "is_Exception _ = True"

text \<open>What an overridable callback (\<open>on_tweet\<close>, \<open>on_keep_alive\<close>,
  \<open>on_request_error\<close>) does when it is invoked: it returns, it calls
  \<open>self.disconnect()\<close> and returns, or it raises.\<close>

datatype effect = Returns | Disconnects | Raises exn

text \<open>One item of a response body as \<open>resp.iter_lines\<close> hands it over: a line (with what
  the callback invoked for it does), a call of \<open>disconnect()\<close> from another thread while
  the loop waits for the next line, or the iterator raising (a broken connection, a read
  timeout, an interrupt).\<close>

datatype wire = Line string effect | Cancel | Fault exn

record response =
  status_code :: int
  body :: "wire list"

text \<open>One connection attempt: \<open>session.get\<close> raises, or it yields a response; the effect
  is what \<open>on_request_error\<close> does if the loop invokes it.\<close>

datatype attempt = ConnectError exn | Answered response effect

datatype 't event =
    EvOpen string
  | EvData string
  | EvTweet "json + 't"
  | EvKeepAlive
  | EvRequestError int
  | EvSleep int
  | EvDisconnect
  | EvLog exn
  | EvClose

text \<open>The library functions the module imports: \<open>json.loads\<close> and
  \<open>pytwitter.models.Tweet.new_from_json_dict\<close>. Neither is part of the module, so both
  are parameters; each may raise.\<close>

record 't lib =
  loads :: "string \<Rightarrow> exn + json"
  new_from_json_dict :: "json \<Rightarrow> exn + 't"

text \<open>The controller: the attributes of \<open>StreamApi\<close> that \<open>_connect\<close> and \<open>sample\<close> read
  or write (\<open>has_auth\<close> is the truth value of \<open>self._auth\<close>), the locals \<open>retries\<close> and
  \<open>http_error_wait\<close> of \<open>_connect\<close>, and the trace.\<close>

record 't ctl =
  running :: bool
  has_auth :: bool
  max_retries :: int
  session_closed :: bool
  retries :: int
  http_error_wait :: int
  trace :: "'t event list"

datatype 't result = Normal "'t ctl" | Raised exn "'t ctl"

text \<open>The connect loop may ask for more connection attempts than the script holds; then
  the run is \<open>Starved\<close>, with the state at the head of the \<open>while\<close> loop.\<close>

datatype 't run = Finished "'t result" | Starved "'t ctl"

fun state_of :: "'t result \<Rightarrow> 't ctl" where
  "state_of (Normal s) = s"
| "state_of (Raised e s) = s"

fun final :: "'t run \<Rightarrow> 't ctl" where
  "final (Finished r) = state_of r"
| "final (Starved s) = s"

fun ended :: "'t run \<Rightarrow> bool" where
  "ended (Finished r) = True"
| "ended (Starved s) = False"

fun returned :: "'t run \<Rightarrow> bool" where
  "returned (Finished (Normal s)) = True"
| "returned _ = False"

fun propagated :: "'t run \<Rightarrow> exn option" where
  "propagated (Finished (Raised e s)) = Some e"
| "propagated _ = None"

subsection \<open>Python's \<open>in\<close> and subscript on decoded JSON\<close>

fun starts_with :: "string \<Rightarrow> string \<Rightarrow> bool" where
  "starts_with [] s = True"
| "starts_with (p # ps) [] = False"
| "starts_with (p # ps) (c # cs) = (p = c \<and> starts_with ps cs)"

fun contains :: "string \<Rightarrow> string \<Rightarrow> bool" where
  "contains p [] = (p = [])"
| "contains p (c # cs) = (starts_with p (c # cs) \<or> contains p cs)"

text \<open>\<open>key in data\<close>: a key of a dict, an element of a list, a substring of a string;
  \<open>TypeError\<close> on a number, a boolean and \<open>None\<close>.\<close>

fun py_in :: "string \<Rightarrow> json \<Rightarrow> exn + bool" where
  "py_in k (JObj kvs) = Inr (k \<in> set (map fst kvs))"
| "py_in k (JArr xs) = Inr (JStr k \<in> set xs)"
| "py_in k (JStr s) = Inr (contains k s)"
| "py_in k _ = Inl TypeError"

text \<open>\<open>data[key]\<close> with a string key: the value of a dict (\<open>KeyError\<close> when absent),
  \<open>TypeError\<close> on everything else.\<close>

fun py_getitem :: "json \<Rightarrow> string \<Rightarrow> exn + json" where
  "py_getitem (JObj kvs) k = (case map_of kvs k of None \<Rightarrow> Inl (KeyError k) | Some v \<Rightarrow> Inr v)"
| "py_getitem _ k = Inl TypeError"

subsection \<open>The callbacks and \<open>disconnect\<close>\<close>

definition emit :: "'t event \<Rightarrow> 't ctl \<Rightarrow> 't ctl" where
  "emit ev st = st\<lparr>trace := trace st @ [ev]\<rparr>"

definition disconnect :: "'t ctl \<Rightarrow> 't ctl" where
  "disconnect st = (emit EvDisconnect st)\<lparr>running := False\<rparr>"

fun invoke :: "effect \<Rightarrow> 't ctl \<Rightarrow> 't result" where
  "invoke Returns st = Normal st"
| "invoke Disconnects st = Normal (disconnect st)"
| "invoke (Raises e) st = Raised e st"

definition on_tweet :: "effect \<Rightarrow> json + 't \<Rightarrow> 't ctl \<Rightarrow> 't result" where
  "on_tweet eff tweet st = invoke eff (emit (EvTweet tweet) st)"

definition on_keep_alive :: "effect \<Rightarrow> 't ctl \<Rightarrow> 't result" where
  "on_keep_alive eff st = invoke eff (emit EvKeepAlive st)"

definition on_request_error :: "effect \<Rightarrow> int \<Rightarrow> 't ctl \<Rightarrow> 't result" where
  "on_request_error eff code st = invoke eff (emit (EvRequestError code) st)"

subsection \<open>\<open>on_data\<close>\<close>

definition on_data :: "'t lib \<Rightarrow> effect \<Rightarrow> string \<Rightarrow> bool \<Rightarrow> 't ctl \<Rightarrow> 't result" where
  "on_data l eff raw_data return_json st =
     (case loads l raw_data of
        Inl e \<Rightarrow> Raised e st
      | Inr data \<Rightarrow>
          (case py_in ''errors'' data of
             Inl e \<Rightarrow> Raised e st
           | Inr True \<Rightarrow>
               (case py_getitem data ''errors'' of
                  Inl e \<Rightarrow> Raised e st
                | Inr v \<Rightarrow> Raised (PyTwitterError (Inr v)) st)
           | Inr False \<Rightarrow>
               (if return_json then
                  (case py_getitem data ''data'' of
                     Inl e \<Rightarrow> Raised e st
                   | Inr d \<Rightarrow>
                       (case new_from_json_dict l d of
                          Inl e \<Rightarrow> Raised e st
                        | Inr t \<Rightarrow> on_tweet eff (Inr t) st))
                else on_tweet eff (Inl data) st)))"

subsection \<open>\<open>_connect\<close>\<close>

text \<open>
  The calls of \<open>time.sleep\<close>, \<open>logger.exception\<close> and \<open>session.close\<close> appear in the
  trace and return; \<open>print(resp.headers)\<close> and the closing of the response at the end of
  the \<open>with\<close> block leave no mark. The parameters of \<open>session.get\<close> other than the URL
  (\<open>params\<close>, the credential, proxies, timeout) do not change what the loop does with
  the answer, which the script gives.
\<close>

definition http_error_wait_max :: int where
  "http_error_wait_max = 320"

text \<open>The \<open>for line in resp.iter_lines(...)\<close> loop of one response.\<close>

fun read_lines :: "'t lib \<Rightarrow> bool \<Rightarrow> wire list \<Rightarrow> 't ctl \<Rightarrow> 't result" where
  "read_lines l rj [] st = Normal st"
| "read_lines l rj (Cancel # ws) st = read_lines l rj ws (disconnect st)"
| "read_lines l rj (Fault e # ws) st = Raised e st"
| "read_lines l rj (Line line eff # ws) st =
     (case (if line \<noteq> [] then on_data l eff line rj (emit (EvData line) st)
            else on_keep_alive eff st) of
        Raised e st' \<Rightarrow> Raised e st'
      | Normal st' \<Rightarrow> if \<not> running st' then Normal st' else read_lines l rj ws st')"

text \<open>The \<open>while self.running and retries < self.max_retries\<close> loop.\<close>

fun connect_loop :: "'t lib \<Rightarrow> string \<Rightarrow> bool \<Rightarrow> attempt list \<Rightarrow> 't ctl \<Rightarrow> 't run" where
  "connect_loop l url rj [] st =
     (if running st \<and> retries st < max_retries st then Starved st
      else Finished (Normal st))"
| "connect_loop l url rj (a # script) st =
     (if running st \<and> retries st < max_retries st then
        (case a of
           ConnectError e \<Rightarrow> Finished (Raised e (emit (EvOpen url) st))
         | Answered resp eff \<Rightarrow>
             (if status_code resp = 200 then
                (case read_lines l rj (body resp) (emit (EvOpen url) st) of
                   Raised e st' \<Rightarrow> Finished (Raised e st')
                 | Normal st' \<Rightarrow> connect_loop l url rj script st')
              else
                (case on_request_error eff (status_code resp) (emit (EvOpen url) st) of
                   Raised e st' \<Rightarrow> Finished (Raised e st')
                 | Normal st' \<Rightarrow>
                     (let st1 = st'\<lparr>retries := retries st' + 1\<rparr>;
                          st2 = emit (EvSleep (http_error_wait st1)) st1;
                          st3 = st2\<lparr>http_error_wait := http_error_wait st2 * 2\<rparr>
                      in if http_error_wait st3 > http_error_wait_max
                         then Finished (Normal st3)
                         else connect_loop l url rj script st3))))
      else Finished (Normal st))"

text \<open>The \<open>finally\<close> clause, and the \<open>except Exception\<close> clause in front of it.\<close>

definition finally_clause :: "'t ctl \<Rightarrow> 't ctl" where
  "finally_clause st = (emit EvClose st)\<lparr>session_closed := True, running := False\<rparr>"

fun handler :: "'t result \<Rightarrow> 't result" where
  "handler (Normal st) = Normal (finally_clause st)"
| "handler (Raised e st) =
     (if is_Exception e then Normal (finally_clause (emit (EvLog e) st))
      else Raised e (finally_clause st))"

text \<open>The \<open>try\<close> statement of \<open>_connect\<close>, entered in any state of the loop.\<close>

definition try_block :: "'t lib \<Rightarrow> string \<Rightarrow> bool \<Rightarrow> attempt list \<Rightarrow> 't ctl \<Rightarrow> 't run" where
  "try_block l url rj script st =
     (case connect_loop l url rj script st of
        Finished r \<Rightarrow> Finished (handler r)
      | Starved st' \<Rightarrow> Starved st')"

definition enter :: "'t ctl \<Rightarrow> 't ctl" where
  "enter st = st\<lparr>running := True, retries := 0, http_error_wait := 5\<rparr>"

text \<open>\<open>_connect\<close> (an Isabelle name cannot start with an underscore).\<close>

definition connect :: "'t lib \<Rightarrow> string \<Rightarrow> bool \<Rightarrow> attempt list \<Rightarrow> 't ctl \<Rightarrow> 't run" where
  "connect l url return_json script st =
     (if \<not> has_auth st then Finished (Raised (PyTwitterError (Inl ''Need auth'')) st)
      else try_block l url return_json script (enter st))"

subsection \<open>\<open>sample\<close>\<close>






section \<open>Auxiliary notions\<close>

subsection \<open>Reading a trace\<close>

text \<open>The durations of the calls of \<open>time.sleep\<close>, in order.\<close>

fun sleep_of :: "'t event \<Rightarrow> int list" where
  "sleep_of (EvSleep w) = [w]"
| "sleep_of _ = []"

definition sleeps :: "'t event list \<Rightarrow> int list" where
  "sleeps tr = concat (map sleep_of tr)"

text \<open>The lines the loop body took up: a call of \<open>on_data\<close> or of \<open>on_keep_alive\<close>.
  The callbacks invoked: \<open>on_tweet\<close> or \<open>on_keep_alive\<close>. What each item of a response
  body contributes when the loop takes it up.\<close>

fun is_dispatch :: "'t event \<Rightarrow> bool" where
  "is_dispatch (EvData raw) = True"
| "is_dispatch EvKeepAlive = True"
| "is_dispatch _ = False"








fun is_callback :: "'t event \<Rightarrow> bool" where
  "is_callback (EvTweet t) = True"
| "is_callback EvKeepAlive = True"
| "is_callback _ = False"





text \<open>What a trace holds after its first call of \<open>disconnect\<close>, if it has one.\<close>

fun after_disconnect :: "'t event list \<Rightarrow> 't event list option" where
  "after_disconnect [] = None"
| "after_disconnect (e # es) = (if e = EvDisconnect then Some es else after_disconnect es)"

fun is_open :: "'t event \<Rightarrow> bool" where
  "is_open (EvOpen url) = True"
| "is_open _ = False"

text \<open>A kind of event of which the loop body produces at most one per line, and
  nothing else in \<open>_connect\<close> produces any.\<close>

definition line_bound :: "('t event \<Rightarrow> bool) \<Rightarrow> bool" where
  "line_bound P \<longleftrightarrow>
     \<not> P EvDisconnect \<and> \<not> P EvClose \<and> (\<forall>e. \<not> P (EvLog e)) \<and> (\<forall>w. \<not> P (EvSleep w)) \<and>
     (\<forall>u. \<not> P (EvOpen u)) \<and> (\<forall>c. \<not> P (EvRequestError c)) \<and>
     (\<forall>raw t. \<not> (P (EvData raw) \<and> P (EvTweet t)))"

text \<open>No disconnect so far; and a disconnect so far, with at most \<open>n\<close> events of the
  kind and no connection opened since the first one.\<close>

definition calm :: "'t ctl \<Rightarrow> bool" where
  "calm st \<longleftrightarrow> after_disconnect (trace st) = None"

definition spent :: "('t event \<Rightarrow> bool) \<Rightarrow> nat \<Rightarrow> 't ctl \<Rightarrow> bool" where
  "spent P n st \<longleftrightarrow>
     (case after_disconnect (trace st) of
        None \<Rightarrow> False
      | Some x \<Rightarrow> length (filter P x) \<le> n \<and> filter is_open x = [])"

subsection \<open>Pieces of the loops, named\<close>

text \<open>A step that leaves the locals of \<open>_connect\<close>, the configuration and the sleeps
  recorded so far as they are.\<close>

definition same_locals :: "'t ctl \<Rightarrow> 't ctl \<Rightarrow> bool" where
  "same_locals st st' \<longleftrightarrow>
     retries st' = retries st \<and> http_error_wait st' = http_error_wait st \<and>
     max_retries st' = max_retries st \<and> has_auth st' = has_auth st \<and>
     session_closed st' = session_closed st \<and> sleeps (trace st') = sleeps (trace st)"

text \<open>What the loop body does with one line.\<close>

definition dispatch :: "'t lib \<Rightarrow> bool \<Rightarrow> string \<Rightarrow> effect \<Rightarrow> 't ctl \<Rightarrow> 't result" where
  "dispatch l rj line eff st =
     (if line \<noteq> [] then on_data l eff line rj (emit (EvData line) st)
      else on_keep_alive eff st)"

text \<open>One failed attempt, from the call of \<open>on_request_error\<close> on.\<close>

definition back_off :: "'t ctl \<Rightarrow> 't ctl" where
  "back_off st' =
     (let st1 = st'\<lparr>retries := retries st' + 1\<rparr>;
          st2 = emit (EvSleep (http_error_wait st1)) st1
      in st2\<lparr>http_error_wait := http_error_wait st2 * 2\<rparr>)"

text \<open>The condition of the \<open>while\<close> loop.\<close>

definition looping :: "'t ctl \<Rightarrow> bool" where
  "looping st \<longleftrightarrow> running st \<and> retries st < max_retries st"

text \<open>The delay is the base doubled once per failed attempt so far.\<close>

definition backoff_inv :: "'t ctl \<Rightarrow> bool" where
  "backoff_inv st \<longleftrightarrow> 0 \<le> retries st \<and> http_error_wait st = 5 * 2 ^ nat (retries st)"

definition schedule :: "nat \<Rightarrow> nat \<Rightarrow> int list" where
  "schedule i j = map (\<lambda>k. 5 * 2 ^ k) [i..<j]"

definition slept_last :: "'t ctl \<Rightarrow> bool" where
  "slept_last st \<longleftrightarrow> trace st \<noteq> [] \<and> last (trace st) = EvSleep (http_error_wait st div 2)"

subsection \<open>Example inputs\<close>

text \<open>A decoder that knows two payloads, and a model constructor that accepts everything.\<close>

definition demo_lib :: "json lib" where
  "demo_lib = \<lparr>loads = (\<lambda>s. if s = ''{}'' then Inr (JObj [])
      else if s = ''{\"errors\": 1}'' then Inr (JObj [(''errors'', JNum 1)]) else Inl JSONDecodeError),
     new_from_json_dict = (\<lambda>d. Inr d)\<rparr>"

text \<open>The controller as \<open>__init__\<close> leaves it when a bearer token is given.\<close>

definition fresh :: "int \<Rightarrow> 't ctl" where
  "fresh n = \<lparr>running = False, has_auth = True, max_retries = n, session_closed = False,
     retries = 0, http_error_wait = 0, trace = []\<rparr>"

text \<open>A response with an error status, and a response that streams the given body.\<close>

definition refuses :: "int \<Rightarrow> attempt" where
  "refuses code = Answered \<lparr>status_code = code, body = []\<rparr> Returns"

definition streams :: "wire list \<Rightarrow> attempt" where
  "streams ws = Answered \<lparr>status_code = 200, body = ws\<rparr> Returns"



section \<open>Lemmas\<close>

lemma same_locals_refl: "same_locals st st"
  by (simp add: same_locals_def)

lemma same_locals_trans: "same_locals a b \<Longrightarrow> same_locals b c \<Longrightarrow> same_locals a c"
  by (simp add: same_locals_def)

lemma same_locals_emit: "sleep_of ev = [] \<Longrightarrow> same_locals st (emit ev st)"
  by (simp add: same_locals_def emit_def sleeps_def)

lemma same_locals_disconnect: "same_locals st (disconnect st)"
  by (simp add: same_locals_def disconnect_def emit_def sleeps_def)

lemma invoke_locals: "same_locals st (state_of (invoke eff st))"
  by (cases eff) (simp_all add: same_locals_refl same_locals_disconnect)

lemma on_tweet_locals: "same_locals st (state_of (on_tweet eff t st))"
  unfolding on_tweet_def
  by (rule same_locals_trans [OF same_locals_emit invoke_locals]) simp

lemma on_keep_alive_locals: "same_locals st (state_of (on_keep_alive eff st))"
  unfolding on_keep_alive_def
  by (rule same_locals_trans [OF same_locals_emit invoke_locals]) simp

lemma on_request_error_locals: "same_locals st (state_of (on_request_error eff c st))"
  unfolding on_request_error_def
  by (rule same_locals_trans [OF same_locals_emit invoke_locals]) simp

lemma on_data_locals: "same_locals st (state_of (on_data l eff raw rj st))"
  unfolding on_data_def
  by (simp add: same_locals_refl on_tweet_locals split: sum.splits bool.splits)

lemma read_lines_Line:
  "read_lines l rj (Line line eff # ws) st =
     (case dispatch l rj line eff st of
        Raised e st' \<Rightarrow> Raised e st'
      | Normal st' \<Rightarrow> if \<not> running st' then Normal st' else read_lines l rj ws st')"
  by (simp add: dispatch_def)

lemma dispatch_locals: "same_locals st (state_of (dispatch l rj line eff st))"
  unfolding dispatch_def
proof (cases "line = []")
  case True
  then show "same_locals st
     (state_of (if line \<noteq> [] then on_data l eff line rj (emit (EvData line) st)
                else on_keep_alive eff st))"
    by (simp add: on_keep_alive_locals)
next
  case False
  have "same_locals st (emit (EvData line) st)" by (simp add: same_locals_emit)
  from same_locals_trans [OF this on_data_locals] False
  show "same_locals st
     (state_of (if line \<noteq> [] then on_data l eff line rj (emit (EvData line) st)
                else on_keep_alive eff st))"
    by simp
qed

lemma read_lines_locals: "same_locals st (state_of (read_lines l rj ws st))"
proof (induction ws arbitrary: st)
  case Nil
  show ?case by (simp add: same_locals_refl)
next
  case (Cons w ws)
  show ?case
  proof (cases w)
    case (Line raw eff)
    show ?thesis
    proof (cases "dispatch l rj raw eff st")
      case (Normal s1)
      with dispatch_locals [of st l rj raw eff] Cons.IH [of s1] Line show ?thesis
        by (auto simp: read_lines_Line simp del: read_lines.simps intro: same_locals_trans)
    next
      case (Raised e s1)
      with dispatch_locals [of st l rj raw eff] Line show ?thesis
        by (auto simp: read_lines_Line simp del: read_lines.simps)
    qed
  next
    case Cancel
    with Cons.IH [of "disconnect st"] show ?thesis
      by (auto intro: same_locals_trans same_locals_disconnect)
  next
    case (Fault e)
    then show ?thesis by (simp add: same_locals_refl)
  qed
qed

lemma loop_exit: "\<not> looping st \<Longrightarrow> connect_loop l url rj script st = Finished (Normal st)"
  by (cases script) (auto simp: looping_def)

lemma loop_starved: "looping st \<Longrightarrow> connect_loop l url rj [] st = Starved st"
  by (simp add: looping_def)

lemma loop_connect_error:
  "looping st \<Longrightarrow>
   connect_loop l url rj (ConnectError e # script) st = Finished (Raised e (emit (EvOpen url) st))"
  by (simp add: looping_def)

lemma loop_stream_raised:
  "looping st \<Longrightarrow> status_code resp = 200 \<Longrightarrow>
   read_lines l rj (body resp) (emit (EvOpen url) st) = Raised e s1 \<Longrightarrow>
   connect_loop l url rj (Answered resp eff # script) st = Finished (Raised e s1)"
  by (simp add: looping_def)

lemma loop_stream_normal:
  "looping st \<Longrightarrow> status_code resp = 200 \<Longrightarrow>
   read_lines l rj (body resp) (emit (EvOpen url) st) = Normal s1 \<Longrightarrow>
   connect_loop l url rj (Answered resp eff # script) st = connect_loop l url rj script s1"
  by (simp add: looping_def)

lemma loop_error_raised:
  "looping st \<Longrightarrow> status_code resp \<noteq> 200 \<Longrightarrow>
   on_request_error eff (status_code resp) (emit (EvOpen url) st) = Raised e s1 \<Longrightarrow>
   connect_loop l url rj (Answered resp eff # script) st = Finished (Raised e s1)"
  by (simp add: looping_def)

lemma loop_error_break:
  "looping st \<Longrightarrow> status_code resp \<noteq> 200 \<Longrightarrow>
   on_request_error eff (status_code resp) (emit (EvOpen url) st) = Normal s1 \<Longrightarrow>
   http_error_wait (back_off s1) > 320 \<Longrightarrow>
   connect_loop l url rj (Answered resp eff # script) st = Finished (Normal (back_off s1))"
  by (simp add: looping_def back_off_def Let_def http_error_wait_max_def)

lemma loop_error_again:
  "looping st \<Longrightarrow> status_code resp \<noteq> 200 \<Longrightarrow>
   on_request_error eff (status_code resp) (emit (EvOpen url) st) = Normal s1 \<Longrightarrow>
   \<not> http_error_wait (back_off s1) > 320 \<Longrightarrow>
   connect_loop l url rj (Answered resp eff # script) st = connect_loop l url rj script (back_off s1)"
  by (simp add: looping_def back_off_def Let_def http_error_wait_max_def)

lemma back_off_simps:
  "retries (back_off st) = retries st + 1"
  "http_error_wait (back_off st) = http_error_wait st * 2"
  "max_retries (back_off st) = max_retries st"
  "running (back_off st) = running st"
  "has_auth (back_off st) = has_auth st"
  "session_closed (back_off st) = session_closed st"
  "trace (back_off st) = trace st @ [EvSleep (http_error_wait st)]"
  by (simp_all add: back_off_def emit_def Let_def)

lemma sleeps_append: "sleeps (a @ b) = sleeps a @ sleeps b"
  by (simp add: sleeps_def)

lemma pow_bound: "(5::int) * 2 ^ k \<le> 320 \<Longrightarrow> k \<le> 6"
proof (rule ccontr)
  assume a: "(5::int) * 2 ^ k \<le> 320" and "\<not> k \<le> 6"
  then have "7 \<le> k" by simp
  then have "(2::int) ^ 7 \<le> 2 ^ k" by (intro power_increasing) simp_all
  with a show False by simp
qed

lemma loop_backoff:
  "backoff_inv st \<Longrightarrow> http_error_wait st \<le> 320 \<Longrightarrow>
   backoff_inv (final (connect_loop l url rj script st)) \<and>
   retries st \<le> retries (final (connect_loop l url rj script st)) \<and>
   retries (final (connect_loop l url rj script st)) \<le> 7 \<and>
   sleeps (trace (final (connect_loop l url rj script st))) =
     sleeps (trace st) @ schedule (nat (retries st)) (nat (retries (final (connect_loop l url rj script st))))"
proof (induction script arbitrary: st)
  case Nil
  then have "nat (retries st) \<le> 6" using pow_bound [of "nat (retries st)"] by (simp add: backoff_inv_def)
  with Nil show ?case by (auto simp: schedule_def backoff_inv_def)
next
  case (Cons a script)
  have r6: "nat (retries st) \<le> 6"
    using Cons.prems pow_bound [of "nat (retries st)"] by (simp add: backoff_inv_def)
  have base: "backoff_inv s \<and> retries st \<le> retries s \<and> retries s \<le> 7 \<and>
      sleeps (trace s) = sleeps (trace st) @ schedule (nat (retries st)) (nat (retries s))"
    if "same_locals st s" for s
    using that Cons.prems r6 by (auto simp: schedule_def backoff_inv_def same_locals_def)
  show ?case
  proof (cases "looping st")
    case False
    then show ?thesis using base [OF same_locals_refl] by (simp add: loop_exit del: connect_loop.simps)
  next
    case go: True
    let ?o = "emit (EvOpen url) st"
    have o: "same_locals st ?o" by (simp add: same_locals_emit)
    show ?thesis
    proof (cases a)
      case (ConnectError e)
      with go base [OF o] show ?thesis
        by (simp add: loop_connect_error del: connect_loop.simps)
    next
      case (Answered resp eff)
      show ?thesis
      proof (cases "status_code resp = 200")
        case ok: True
        let ?r = "read_lines l rj (body resp) ?o"
        have fr: "same_locals st (state_of ?r)"
          using same_locals_trans [OF o read_lines_locals] .
        show ?thesis
        proof (cases ?r)
          case (Raised e s1)
          with fr have "same_locals st s1" by simp
          from base [OF this] show ?thesis
            unfolding Answered loop_stream_raised [OF go ok Raised] by simp
        next
          case (Normal s1)
          with fr have s1: "same_locals st s1" by simp
          then have "backoff_inv s1" "http_error_wait s1 \<le> 320"
            using Cons.prems by (simp_all add: same_locals_def backoff_inv_def)
          from Cons.IH [OF this] s1 show ?thesis
            unfolding Answered loop_stream_normal [OF go ok Normal] by (simp add: same_locals_def)
        qed
      next
        case bad: False
        let ?r = "on_request_error eff (status_code resp) ?o"
        have fr: "same_locals st (state_of ?r)"
          using same_locals_trans [OF o on_request_error_locals] .
        show ?thesis
        proof (cases ?r)
          case (Raised e s1)
          with fr have "same_locals st s1" by simp
          from base [OF this] show ?thesis
            unfolding Answered loop_error_raised [OF go bad Raised] by simp
        next
          case (Normal s1)
          with fr have s1: "same_locals st s1" by simp
          let ?b = "back_off s1"
          have n: "nat (retries st + 1) = Suc (nat (retries st))"
            using Cons.prems by (simp add: backoff_inv_def nat_add_distrib)
          have bre: "retries ?b = retries st + 1" using s1 by (simp add: back_off_simps same_locals_def)
          have binv: "backoff_inv ?b"
            using s1 Cons.prems n by (simp add: back_off_simps same_locals_def backoff_inv_def)
          have bsl: "sleeps (trace ?b) = sleeps (trace st) @ schedule (nat (retries st)) (nat (retries ?b))"
            using s1 Cons.prems n
            by (simp add: back_off_simps same_locals_def backoff_inv_def sleeps_append schedule_def sleeps_def)
          show ?thesis
          proof (cases "http_error_wait ?b > 320")
            case True
            from binv bsl bre r6 Cons.prems show ?thesis
              unfolding Answered loop_error_break [OF go bad Normal True]
              by (simp add: backoff_inv_def)
          next
            case False
            then have le: "http_error_wait ?b \<le> 320" by simp
            let ?f = "final (connect_loop l url rj script ?b)"
            have ih: "backoff_inv ?f \<and> retries ?b \<le> retries ?f \<and> retries ?f \<le> 7 \<and>
               sleeps (trace ?f) = sleeps (trace ?b) @ schedule (nat (retries ?b)) (nat (retries ?f))"
              using Cons.IH [OF binv le] .
            have "schedule (nat (retries st)) (Suc (nat (retries st))) @ schedule (Suc (nat (retries st))) k
                = schedule (nat (retries st)) k" if "Suc (nat (retries st)) \<le> k" for k
              using that unfolding schedule_def
              by (simp add: upt_conv_Cons)
            moreover have "Suc (nat (retries st)) \<le> nat (retries ?f)"
              using ih bre Cons.prems unfolding backoff_inv_def by linarith
            ultimately have "schedule (nat (retries st)) (Suc (nat (retries st))) @
                schedule (Suc (nat (retries st))) (nat (retries ?f))
                = schedule (nat (retries st)) (nat (retries ?f))" by blast
            with ih bsl bre n show ?thesis
              unfolding Answered loop_error_again [OF go bad Normal False]
              by (simp add: nat_mono)
          qed
        qed
      qed
    qed
  qed
qed

lemmas run_defs = connect_def try_block_def enter_def on_tweet_def on_keep_alive_def
  on_request_error_def emit_def disconnect_def finally_clause_def http_error_wait_max_def
  on_data_def demo_lib_def fresh_def refuses_def streams_def sleeps_def

lemma handler_backoff:
  "retries (state_of (handler r)) = retries (state_of r)"
  "http_error_wait (state_of (handler r)) = http_error_wait (state_of r)"
  "max_retries (state_of (handler r)) = max_retries (state_of r)"
  "sleeps (trace (state_of (handler r))) = sleeps (trace (state_of r))"
  by (cases r; simp add: finally_clause_def emit_def sleeps_def)+

lemma try_block_backoff:
  "retries (final (try_block l url rj script st)) = retries (final (connect_loop l url rj script st))"
  "http_error_wait (final (try_block l url rj script st)) = http_error_wait (final (connect_loop l url rj script st))"
  "sleeps (trace (final (try_block l url rj script st))) = sleeps (trace (final (connect_loop l url rj script st)))"
  by (cases "connect_loop l url rj script st"; simp add: try_block_def handler_backoff)+

lemma enter_backoff: "backoff_inv (enter st)" "http_error_wait (enter st) \<le> 320"
  "trace (enter st) = trace st" "retries (enter st) = 0" "max_retries (enter st) = max_retries st"
  "running (enter st)"
  by (simp_all add: backoff_inv_def enter_def)

lemma length_schedule: "length (schedule i j) = j - i"
  by (simp add: schedule_def)

lemma unreturned_wait:
  "\<not> returned (connect_loop l url rj script st) \<Longrightarrow> http_error_wait st \<le> 320 \<Longrightarrow>
   http_error_wait (final (connect_loop l url rj script st)) \<le> 320"
proof (induction script arbitrary: st)
  case Nil
  then show ?case by (cases "looping st") (simp_all add: loop_exit loop_starved del: connect_loop.simps)
next
  case (Cons a script)
  have o: "same_locals st (emit (EvOpen url) st)" by (simp add: same_locals_emit)
  show ?case
  proof (cases "looping st")
    case False
    with Cons.prems show ?thesis by (simp add: loop_exit del: connect_loop.simps)
  next
    case go: True
    show ?thesis
    proof (cases a)
      case (ConnectError e)
      with go Cons.prems show ?thesis by (simp add: loop_connect_error emit_def del: connect_loop.simps)
    next
      case (Answered resp eff)
      show ?thesis
      proof (cases "status_code resp = 200")
        case ok: True
        show ?thesis
        proof (cases "read_lines l rj (body resp) (emit (EvOpen url) st)")
          case (Raised e s1)
          from same_locals_trans [OF o read_lines_locals, of l rj "body resp"] Raised Cons.prems(2)
          show ?thesis
            unfolding Answered loop_stream_raised [OF go ok Raised] by (simp add: same_locals_def)
        next
          case (Normal s1)
          from same_locals_trans [OF o read_lines_locals, of l rj "body resp"] Normal
          have "http_error_wait s1 \<le> 320" using Cons.prems(2) by (simp add: same_locals_def)
          with Cons.IH [of s1] Cons.prems(1) show ?thesis
            unfolding Answered loop_stream_normal [OF go ok Normal] by simp
        qed
      next
        case bad: False
        show ?thesis
        proof (cases "on_request_error eff (status_code resp) (emit (EvOpen url) st)")
          case (Raised e s1)
          from same_locals_trans [OF o on_request_error_locals, of eff "status_code resp"] Raised Cons.prems(2)
          show ?thesis
            unfolding Answered loop_error_raised [OF go bad Raised] by (simp add: same_locals_def)
        next
          case (Normal s1)
          show ?thesis
          proof (cases "http_error_wait (back_off s1) > 320")
            case True
            from Cons.prems(1) show ?thesis
              unfolding Answered loop_error_break [OF go bad Normal True] by simp
          next
            case False
            with Cons.IH [of "back_off s1"] Cons.prems(1) show ?thesis
              unfolding Answered loop_error_again [OF go bad Normal False] by simp
          qed
        qed
      qed
    qed
  qed
qed

lemma returned_try_block:
  "returned (connect_loop l url rj script st) \<Longrightarrow> returned (try_block l url rj script st)"
  by (cases "connect_loop l url rj script st" rule: returned.cases) (simp_all add: try_block_def)

lemma schedule_min: "j \<le> 7 \<Longrightarrow> schedule 0 j = map (\<lambda>k. min (5 * 2 ^ k) 320) [0..<j]"
proof -
  assume j: "j \<le> 7"
  have "(5::int) * 2 ^ k \<le> 320" if "k < j" for k
  proof -
    from that j have "k \<le> 6" by simp
    then have "(2::int) ^ k \<le> 2 ^ 6" by (intro power_increasing) simp_all
    then show ?thesis by simp
  qed
  then show ?thesis by (simp add: schedule_def min_def)
qed

lemma loop_exhausted:
  "retries st < max_retries st \<or> slept_last st \<Longrightarrow>
   max_retries st \<le> retries (final (connect_loop l url rj script st)) \<Longrightarrow>
   returned (connect_loop l url rj script st) \<and> slept_last (final (connect_loop l url rj script st))"
proof (induction script arbitrary: st)
  case Nil
  then show ?case
    by (cases "looping st") (auto simp: loop_exit loop_starved looping_def simp del: connect_loop.simps)
next
  case (Cons a script)
  have o: "same_locals st (emit (EvOpen url) st)" by (simp add: same_locals_emit)
  show ?case
  proof (cases "looping st")
    case False
    with Cons.prems show ?thesis by (auto simp: loop_exit looping_def simp del: connect_loop.simps)
  next
    case go: True
    then have lt: "retries st < max_retries st" by (simp add: looping_def)
    show ?thesis
    proof (cases a)
      case (ConnectError e)
      with go lt Cons.prems(2) show ?thesis
        by (simp add: loop_connect_error emit_def del: connect_loop.simps)
    next
      case (Answered resp eff)
      show ?thesis
      proof (cases "status_code resp = 200")
        case ok: True
        show ?thesis
        proof (cases "read_lines l rj (body resp) (emit (EvOpen url) st)")
          case (Raised e s1)
          from same_locals_trans [OF o read_lines_locals, of l rj "body resp"] Raised lt Cons.prems(2)
          show ?thesis
            unfolding Answered loop_stream_raised [OF go ok Raised] by (simp add: same_locals_def)
        next
          case (Normal s1)
          from same_locals_trans [OF o read_lines_locals, of l rj "body resp"] Normal
          have s1: "same_locals st s1" by simp
          with lt have "retries s1 < max_retries s1 \<or> slept_last s1" by (simp add: same_locals_def)
          from Cons.IH [OF this] Cons.prems(2) s1 show ?thesis
            unfolding Answered loop_stream_normal [OF go ok Normal] by (simp add: same_locals_def)
        qed
      next
        case bad: False
        show ?thesis
        proof (cases "on_request_error eff (status_code resp) (emit (EvOpen url) st)")
          case (Raised e s1)
          from same_locals_trans [OF o on_request_error_locals, of eff "status_code resp"] Raised lt Cons.prems(2)
          show ?thesis
            unfolding Answered loop_error_raised [OF go bad Raised] by (simp add: same_locals_def)
        next
          case (Normal s1)
          from same_locals_trans [OF o on_request_error_locals, of eff "status_code resp"] Normal
          have s1: "same_locals st s1" by simp
          have sl: "slept_last (back_off s1)" by (simp add: slept_last_def back_off_simps)
          show ?thesis
          proof (cases "http_error_wait (back_off s1) > 320")
            case True
            from sl show ?thesis
              unfolding Answered loop_error_break [OF go bad Normal True] by simp
          next
            case False
            from sl have "retries (back_off s1) < max_retries (back_off s1) \<or> slept_last (back_off s1)" by simp
            from Cons.IH [OF this] Cons.prems(2) s1 show ?thesis
              unfolding Answered loop_error_again [OF go bad Normal False]
              by (simp add: same_locals_def back_off_simps)
          qed
        qed
      qed
    qed
  qed
qed

lemma loop_append:
  "connect_loop l url rj (a @ b) st =
     (case connect_loop l url rj a st of
        Starved s \<Rightarrow> connect_loop l url rj b s
      | Finished r \<Rightarrow> Finished r)"
proof (induction a arbitrary: st)
  case Nil
  show ?case
    by (cases "looping st") (simp_all add: loop_exit loop_starved del: connect_loop.simps)
next
  case (Cons x a)
  show ?case
  proof (cases "looping st")
    case False
    then show ?thesis by (simp add: loop_exit del: connect_loop.simps)
  next
    case go: True
    show ?thesis
    proof (cases x)
      case (ConnectError e)
      with go show ?thesis by (simp add: loop_connect_error del: connect_loop.simps)
    next
      case (Answered resp eff)
      show ?thesis
      proof (cases "status_code resp = 200")
        case ok: True
        show ?thesis
        proof (cases "read_lines l rj (body resp) (emit (EvOpen url) st)")
          case (Raised e s1)
          show ?thesis
            unfolding Answered append_Cons loop_stream_raised [OF go ok Raised] by simp
        next
          case (Normal s1)
          show ?thesis
            unfolding Answered append_Cons loop_stream_normal [OF go ok Normal] by (rule Cons.IH)
        qed
      next
        case bad: False
        show ?thesis
        proof (cases "on_request_error eff (status_code resp) (emit (EvOpen url) st)")
          case (Raised e s1)
          show ?thesis
            unfolding Answered append_Cons loop_error_raised [OF go bad Raised] by simp
        next
          case (Normal s1)
          show ?thesis
          proof (cases "http_error_wait (back_off s1) > 320")
            case True
            show ?thesis
              unfolding Answered append_Cons loop_error_break [OF go bad Normal True] by simp
          next
            case False
            show ?thesis
              unfolding Answered append_Cons loop_error_again [OF go bad Normal False] by (rule Cons.IH)
          qed
        qed
      qed
    qed
  qed
qed

lemma starved_looping:
  "connect_loop l url rj script st = Starved s \<Longrightarrow> looping s"
proof (induction script arbitrary: st)
  case Nil
  then show ?case
    by (cases "looping st") (simp_all add: loop_exit loop_starved del: connect_loop.simps)
next
  case (Cons x a)
  show ?case
  proof (cases "looping st")
    case False
    with Cons.prems show ?thesis by (simp add: loop_exit del: connect_loop.simps)
  next
    case go: True
    show ?thesis
    proof (cases x)
      case (ConnectError e)
      with go Cons.prems show ?thesis by (simp add: loop_connect_error del: connect_loop.simps)
    next
      case (Answered resp eff)
      show ?thesis
      proof (cases "status_code resp = 200")
        case ok: True
        show ?thesis
        proof (cases "read_lines l rj (body resp) (emit (EvOpen url) st)")
          case (Raised e s1)
          from Cons.prems show ?thesis
            unfolding Answered loop_stream_raised [OF go ok Raised] by simp
        next
          case (Normal s1)
          from Cons.prems show ?thesis
            unfolding Answered loop_stream_normal [OF go ok Normal] by (rule Cons.IH)
        qed
      next
        case bad: False
        show ?thesis
        proof (cases "on_request_error eff (status_code resp) (emit (EvOpen url) st)")
          case (Raised e s1)
          from Cons.prems show ?thesis
            unfolding Answered loop_error_raised [OF go bad Raised] by simp
        next
          case (Normal s1)
          show ?thesis
          proof (cases "http_error_wait (back_off s1) > 320")
            case True
            from Cons.prems show ?thesis
              unfolding Answered loop_error_break [OF go bad Normal True] by simp
          next
            case False
            from Cons.prems show ?thesis
              unfolding Answered loop_error_again [OF go bad Normal False] by (rule Cons.IH)
          qed
        qed
      qed
    qed
  qed
qed

lemma read_lines_append:
  "read_lines l rj pre st = Normal s1 \<Longrightarrow> running s1 \<Longrightarrow>
   read_lines l rj (pre @ ws) st = read_lines l rj ws s1"
proof (induction pre arbitrary: st)
  case Nil
  then show ?case by simp
next
  case (Cons w pre)
  show ?case
  proof (cases w)
    case (Line raw eff)
    show ?thesis
    proof (cases "dispatch l rj raw eff st")
      case (Normal s')
      with Cons.prems Line have "running s'" and "read_lines l rj pre s' = Normal s1"
        by (auto simp: read_lines_Line simp del: read_lines.simps split: if_splits)
      with Cons.IH [of s'] Cons.prems(2) Normal Line show ?thesis
        by (simp add: read_lines_Line del: read_lines.simps)
    next
      case (Raised e s')
      with Cons.prems Line show ?thesis
        by (simp add: read_lines_Line del: read_lines.simps)
    qed
  next
    case Cancel
    with Cons.prems Cons.IH [of "disconnect st"] show ?thesis by simp
  next
    case (Fault e)
    with Cons.prems show ?thesis by simp
  qed
qed

lemma on_data_undecodable:
  "loads l raw = Inl e \<Longrightarrow> on_data l eff raw rj st = Raised e st"
  by (simp add: on_data_def)

lemma on_data_errors:
  "loads l raw = Inr (JObj kvs) \<Longrightarrow> map_of kvs ''errors'' = Some v \<Longrightarrow>
   on_data l eff raw rj st = Raised (PyTwitterError (Inr v)) st"
proof -
  assume a: "loads l raw = Inr (JObj kvs)" and b: "map_of kvs ''errors'' = Some v"
  from b have "(''errors'', v) \<in> set kvs" by (rule map_of_SomeD)
  then have "''errors'' \<in> fst ` set kvs" by force
  with a b show ?thesis by (simp add: on_data_def)
qed

lemma fatal_line:
  assumes auth: "has_auth st"
    and earlier: "connect_loop l url rj earlier (enter st) = Starved st0"
    and pre: "read_lines l rj pre (emit (EvOpen url) st0) = Normal s1" "running s1"
    and line: "line \<noteq> []"
    and fatal: "on_data l eff line rj (emit (EvData line) s1) = Raised e s2"
  shows "connect l url rj
           (earlier @ Answered \<lparr>status_code = 200, body = pre @ Line line eff # post\<rparr> x # rest) st
         = Finished (handler (Raised e s2))"
proof -
  let ?resp = "\<lparr>status_code = 200, body = pre @ Line line eff # post\<rparr>"
  have go: "looping st0" using earlier by (rule starved_looping)
  have "read_lines l rj (body ?resp) (emit (EvOpen url) st0) = read_lines l rj (Line line eff # post) s1"
    using read_lines_append [OF pre] by simp
  also have "\<dots> = Raised e s2"
    using fatal line by simp
  finally have r: "read_lines l rj (body ?resp) (emit (EvOpen url) st0) = Raised e s2" .
  have "connect_loop l url rj (Answered ?resp x # rest) st0 = Finished (Raised e s2)"
    by (rule loop_stream_raised [OF go _ r]) simp
  then have "connect_loop l url rj (earlier @ Answered ?resp x # rest) (enter st) = Finished (Raised e s2)"
    by (simp add: loop_append earlier)
  with auth show ?thesis by (simp add: connect_def try_block_def)
qed




lemma invoke_running: "running (state_of (invoke eff st)) \<Longrightarrow> running st"
  by (cases eff) (simp_all add: disconnect_def emit_def)

lemma on_data_running: "running (state_of (on_data l eff raw rj st)) \<Longrightarrow> running st"
proof -
  have "running (state_of (on_tweet eff t st)) \<Longrightarrow> running st" for t
    using invoke_running [of eff "emit (EvTweet t) st"] by (simp add: on_tweet_def emit_def)
  then show "running (state_of (on_data l eff raw rj st)) \<Longrightarrow> running st"
    by (auto simp: on_data_def split: sum.splits bool.splits if_splits)
qed

lemma dispatch_running: "running (state_of (dispatch l rj line eff st)) \<Longrightarrow> running st"
  using on_data_running [of l eff line rj "emit (EvData line) st"]
    invoke_running [of eff "emit EvKeepAlive st"]
  by (cases "line = []") (simp_all add: dispatch_def on_keep_alive_def emit_def)

lemma read_lines_stopped:
  "\<not> running st \<Longrightarrow> \<not> running (state_of (read_lines l rj ws st))"
proof (induction ws arbitrary: st)
  case Nil
  then show ?case by simp
next
  case (Cons w ws)
  show ?case
  proof (cases w)
    case (Line raw eff)
    from Cons.prems dispatch_running [of l rj raw eff st]
    have "\<not> running (state_of (dispatch l rj raw eff st))" by blast
    then show ?thesis unfolding Line
      by (cases "dispatch l rj raw eff st") (simp_all add: read_lines_Line del: read_lines.simps)
  next
    case Cancel
    with Cons.IH [of "disconnect st"] show ?thesis by (simp add: disconnect_def)
  next
    case (Fault e)
    with Cons.prems show ?thesis by simp
  qed
qed














lemma after_disconnect_append:
  "after_disconnect (a @ b) =
     (case after_disconnect a of Some x \<Rightarrow> Some (x @ b) | None \<Rightarrow> after_disconnect b)"
  by (induction a) simp_all

lemma after_disconnect_None: "after_disconnect tr = None \<longleftrightarrow> EvDisconnect \<notin> set tr"
  by (induction tr) auto

lemma after_disconnect_suffix:
  "\<exists>ys. after_disconnect (pre @ EvDisconnect # post) = Some (ys @ post)"
proof (induction pre)
  case Nil
  show ?case by simp
next
  case (Cons e pre)
  show ?case
  proof (cases "e = EvDisconnect")
    case True
    have "after_disconnect ((e # pre) @ EvDisconnect # post) = Some ((pre @ [EvDisconnect]) @ post)"
      using True by simp
    then show ?thesis by blast
  next
    case False
    with Cons show ?thesis by simp
  qed
qed

lemma calm_emit: "ev \<noteq> EvDisconnect \<Longrightarrow> calm st \<Longrightarrow> calm (emit ev st)"
  by (simp add: calm_def emit_def after_disconnect_append)

lemma calm_disconnect: "calm st \<Longrightarrow> spent P 0 (disconnect st) \<and> \<not> running (disconnect st)"
  by (simp add: calm_def spent_def disconnect_def emit_def after_disconnect_append)

lemma spent_emit:
  "\<not> P ev \<Longrightarrow> \<not> is_open ev \<Longrightarrow> spent P n st \<Longrightarrow> spent P n (emit ev st)"
  by (auto simp: spent_def emit_def after_disconnect_append split: option.splits)

lemma spent_emit_one:
  "\<not> is_open ev \<Longrightarrow> spent P 0 st \<Longrightarrow> spent P (Suc 0) (emit ev st)"
  by (auto simp: spent_def emit_def after_disconnect_append split: option.splits)

lemma spent_disconnect:
  "line_bound P \<Longrightarrow> spent P n st \<Longrightarrow> spent P n (disconnect st) \<and> \<not> running (disconnect st)"
  by (auto simp: spent_def disconnect_def emit_def after_disconnect_append line_bound_def
      split: option.splits)

lemma spent_mono: "spent P 0 st \<Longrightarrow> spent P (Suc 0) st"
  by (auto simp: spent_def split: option.splits)

lemma spent_not_calm: "spent P n st \<Longrightarrow> \<not> calm st"
  by (auto simp: spent_def calm_def split: option.splits)

text \<open>A callback invoked in a state with no disconnect so far.\<close>

lemma invoke_calm:
  assumes "calm st" and "running st"
  shows "case invoke eff st of
           Raised e s1 \<Rightarrow> calm s1
         | Normal s1 \<Rightarrow> (calm s1 \<and> running s1) \<or> (spent P 0 s1 \<and> \<not> running s1)"
  using assms calm_disconnect [where st = st and P = P] by (cases eff) simp_all

lemma invoke_spent:
  assumes "line_bound P" and "spent P n st"
  shows "spent P n (state_of (invoke eff st))"
  using assms spent_disconnect [where st = st and P = P and n = n] by (cases eff) simp_all

lemma on_data_calm:
  assumes "calm st" and "running st"
  shows "case on_data l eff raw rj st of
           Raised e s1 \<Rightarrow> calm s1
         | Normal s1 \<Rightarrow> (calm s1 \<and> running s1) \<or> (spent P 0 s1 \<and> \<not> running s1)"
proof -
  have t: "case on_tweet eff t st of
           Raised e s1 \<Rightarrow> calm s1
         | Normal s1 \<Rightarrow> (calm s1 \<and> running s1) \<or> (spent P 0 s1 \<and> \<not> running s1)" for t
    unfolding on_tweet_def
    by (rule invoke_calm) (use assms in \<open>simp_all add: calm_emit\<close>, simp add: emit_def)
  show ?thesis
    using t assms(1) by (simp add: on_data_def split: sum.splits bool.splits)
qed

lemma on_data_spent:
  assumes "line_bound P" and "spent P 0 st"
  shows "spent P (Suc 0) (state_of (on_data l eff raw rj (emit (EvData raw) st)))"
proof (cases "P (EvData raw)")
  case True
  with assms(1) have nt: "\<not> P (EvTweet t)" for t by (auto simp: line_bound_def)
  have d: "spent P (Suc 0) (emit (EvData raw) st)" using assms(2) by (simp add: spent_emit_one)
  have "spent P (Suc 0) (state_of (on_tweet eff t (emit (EvData raw) st)))" for t
    unfolding on_tweet_def
    by (rule invoke_spent [OF assms(1)], rule spent_emit) (use nt d in simp_all)
  with d show ?thesis by (simp add: on_data_def split: sum.splits bool.splits)
next
  case False
  then have d: "spent P 0 (emit (EvData raw) st)" using assms(2) by (simp add: spent_emit)
  have "spent P (Suc 0) (state_of (on_tweet eff t (emit (EvData raw) st)))" for t
    unfolding on_tweet_def
    by (rule invoke_spent [OF assms(1)], rule spent_emit_one) (use d in simp_all)
  with spent_mono [OF d] show ?thesis by (simp add: on_data_def split: sum.splits bool.splits)
qed

lemma dispatch_calm:
  assumes "calm st" and "running st"
  shows "case dispatch l rj line eff st of
           Raised e s1 \<Rightarrow> calm s1
         | Normal s1 \<Rightarrow> (calm s1 \<and> running s1) \<or> (spent P 0 s1 \<and> \<not> running s1)"
proof (cases "line = []")
  case True
  have "case invoke eff (emit EvKeepAlive st) of
           Raised e s1 \<Rightarrow> calm s1
         | Normal s1 \<Rightarrow> (calm s1 \<and> running s1) \<or> (spent P 0 s1 \<and> \<not> running s1)"
    by (rule invoke_calm) (use assms in \<open>simp_all add: calm_emit\<close>, simp add: emit_def)
  with True show ?thesis by (simp add: dispatch_def on_keep_alive_def)
next
  case False
  have "case on_data l eff line rj (emit (EvData line) st) of
           Raised e s1 \<Rightarrow> calm s1
         | Normal s1 \<Rightarrow> (calm s1 \<and> running s1) \<or> (spent P 0 s1 \<and> \<not> running s1)"
    by (rule on_data_calm) (use assms in \<open>simp_all add: calm_emit\<close>, simp add: emit_def)
  with False show ?thesis by (simp add: dispatch_def)
qed

lemma dispatch_spent:
  assumes "line_bound P" and "spent P 0 st"
  shows "spent P (Suc 0) (state_of (dispatch l rj line eff st))"
proof (cases "line = []")
  case True
  have "spent P (Suc 0) (state_of (invoke eff (emit EvKeepAlive st)))"
    by (rule invoke_spent [OF assms(1)], rule spent_emit_one) (use assms in simp_all)
  with True show ?thesis by (simp add: dispatch_def on_keep_alive_def)
next
  case False
  with on_data_spent [OF assms, where l = l and eff = eff and raw = line and rj = rj] show ?thesis by (simp add: dispatch_def)
qed

text \<open>The read loop after a disconnect: at most one more line.\<close>

lemma read_lines_spent:
  assumes "line_bound P"
  shows "spent P 0 st \<Longrightarrow> \<not> running st \<Longrightarrow> spent P (Suc 0) (state_of (read_lines l rj ws st))"
proof (induction ws arbitrary: st)
  case Nil
  then show ?case by (simp add: spent_mono)
next
  case (Cons w ws)
  show ?case
  proof (cases w)
    case (Line raw eff)
    have s: "spent P (Suc 0) (state_of (dispatch l rj raw eff st))"
      using assms Cons.prems(1) by (rule dispatch_spent)
    have r: "\<not> running (state_of (dispatch l rj raw eff st))"
      using Cons.prems(2) dispatch_running by blast
    from s r show ?thesis unfolding Line
      by (cases "dispatch l rj raw eff st") (simp_all add: read_lines_Line del: read_lines.simps)
  next
    case Cancel
    from spent_disconnect [OF assms Cons.prems(1)] Cons.IH [of "disconnect st"] Cancel
    show ?thesis by simp
  next
    case (Fault e)
    with Cons.prems show ?thesis by (simp add: spent_mono)
  qed
qed

lemma read_lines_calm:
  assumes "line_bound P"
  shows "calm st \<Longrightarrow> running st \<Longrightarrow>
     (case read_lines l rj ws st of
        Raised e s' \<Rightarrow> calm s' \<or> spent P (Suc 0) s'
      | Normal s' \<Rightarrow> (calm s' \<and> running s') \<or> (spent P (Suc 0) s' \<and> \<not> running s'))"
proof (induction ws arbitrary: st)
  case Nil
  then show ?case by simp
next
  case (Cons w ws)
  show ?case
  proof (cases w)
    case (Line raw eff)
    note d = dispatch_calm [OF Cons.prems, where l = l and rj = rj and line = raw and eff = eff and P = P]
    show ?thesis
    proof (cases "dispatch l rj raw eff st")
      case (Raised e s1)
      with d show ?thesis unfolding Line by (simp add: read_lines_Line del: read_lines.simps)
    next
      case (Normal s1)
      show ?thesis
      proof (cases "running s1")
        case True
        with d Normal have "calm s1" by (auto dest: spent_not_calm)
        from Cons.IH [OF this True] Normal True show ?thesis unfolding Line
          by (simp add: read_lines_Line del: read_lines.simps)
      next
        case False
        with d Normal have "spent P 0 s1" by simp
        with False Normal show ?thesis unfolding Line
          by (simp add: read_lines_Line spent_mono del: read_lines.simps)
      qed
    qed
  next
    case Cancel
    from calm_disconnect [OF Cons.prems(1), where P = P]
    have s: "spent P 0 (disconnect st)" and r: "\<not> running (disconnect st)" by simp_all
    from read_lines_spent [OF assms s r, where l = l and rj = rj and ws = ws]
      read_lines_stopped [OF r, where l = l and rj = rj and ws = ws] Cancel
    show ?thesis by (cases "read_lines l rj ws (disconnect st)") simp_all
  next
    case (Fault e)
    with Cons.prems show ?thesis by simp
  qed
qed

lemma back_off_calm: "calm s \<Longrightarrow> calm (back_off s)"
  by (simp add: calm_def back_off_simps after_disconnect_append)

lemma back_off_spent: "line_bound P \<Longrightarrow> spent P n s \<Longrightarrow> spent P n (back_off s)"
  by (auto simp: spent_def back_off_simps after_disconnect_append line_bound_def split: option.splits)

lemma finally_calm: "calm s \<Longrightarrow> calm (finally_clause s)"
  by (simp add: calm_def finally_clause_def emit_def after_disconnect_append)

lemma finally_spent: "line_bound P \<Longrightarrow> spent P n s \<Longrightarrow> spent P n (finally_clause s)"
  by (auto simp: spent_def finally_clause_def emit_def after_disconnect_append line_bound_def
      split: option.splits)

lemma handler_calm: "calm (state_of r) \<Longrightarrow> calm (state_of (handler r))"
  by (cases r) (simp_all add: finally_calm calm_emit)

lemma handler_spent:
  "line_bound P \<Longrightarrow> spent P n (state_of r) \<Longrightarrow> spent P n (state_of (handler r))"
  by (cases r) (simp_all add: finally_spent spent_emit line_bound_def)

lemma loop_calm:
  assumes "line_bound P"
  shows "calm st \<Longrightarrow>
     (case connect_loop l url rj script st of
        Starved s \<Rightarrow> calm s
      | Finished r \<Rightarrow> calm (state_of r) \<or> spent P (Suc 0) (state_of r))"
proof (induction script arbitrary: st)
  case Nil
  then show ?case
    by (cases "looping st") (simp_all add: loop_exit loop_starved del: connect_loop.simps)
next
  case (Cons a script)
  show ?case
  proof (cases "looping st")
    case False
    with Cons.prems show ?thesis by (simp add: loop_exit del: connect_loop.simps)
  next
    case go: True
    let ?o = "emit (EvOpen url) st"
    have o: "calm ?o" "running ?o"
      using Cons.prems go by (simp_all add: calm_emit looping_def) (simp add: emit_def)
    show ?thesis
    proof (cases a)
      case (ConnectError e)
      with go o show ?thesis by (simp add: loop_connect_error del: connect_loop.simps)
    next
      case (Answered resp eff)
      show ?thesis
      proof (cases "status_code resp = 200")
        case ok: True
        note rl = read_lines_calm [OF assms o, where l = l and rj = rj and ws = "body resp"]
        show ?thesis
        proof (cases "read_lines l rj (body resp) ?o")
          case (Raised e s1)
          with rl show ?thesis
            unfolding Answered loop_stream_raised [OF go ok Raised] by simp
        next
          case (Normal s1)
          show ?thesis
          proof (cases "running s1")
            case True
            with rl Normal have "calm s1" by (auto dest: spent_not_calm)
            from Cons.IH [OF this] show ?thesis
              unfolding Answered loop_stream_normal [OF go ok Normal] .
          next
            case False
            with rl Normal have "spent P (Suc 0) s1" by simp
            moreover from False have "\<not> looping s1" by (simp add: looping_def)
            ultimately show ?thesis
              unfolding Answered loop_stream_normal [OF go ok Normal] by (simp add: loop_exit)
          qed
        qed
      next
        case bad: False
        let ?e = "emit (EvRequestError (status_code resp)) ?o"
        have e: "calm ?e" "running ?e"
          using o by (simp_all add: calm_emit) (simp add: emit_def)
        note iv = invoke_calm [OF e, where eff = eff and P = P]
        have ore: "on_request_error eff (status_code resp) ?o = invoke eff ?e"
          by (simp add: on_request_error_def)
        show ?thesis
        proof (cases "invoke eff ?e")
          case (Raised x s1)
          then have r: "on_request_error eff (status_code resp) ?o = Raised x s1"
            by (simp add: ore)
          from iv Raised show ?thesis
            unfolding Answered loop_error_raised [OF go bad r] by simp
        next
          case (Normal s1)
          then have n: "on_request_error eff (status_code resp) ?o = Normal s1"
            by (simp add: ore)
          from iv Normal have modes: "(calm s1 \<and> running s1) \<or> (spent P 0 s1 \<and> \<not> running s1)"
            by simp
          have fin: "calm (back_off s1) \<or> spent P (Suc 0) (back_off s1)"
            using modes back_off_calm [of s1] back_off_spent [OF assms, of 0 s1]
            by (auto intro: spent_mono)
          show ?thesis
          proof (cases "http_error_wait (back_off s1) > 320")
            case True
            from fin show ?thesis
              unfolding Answered loop_error_break [OF go bad n True] by simp
          next
            case False
            show ?thesis
            proof (cases "running s1")
              case True
              with modes have "calm s1" by (auto dest: spent_not_calm)
              then have "calm (back_off s1)" by (rule back_off_calm)
              from Cons.IH [OF this] show ?thesis
                unfolding Answered loop_error_again [OF go bad n False] .
            next
              case stopped: False
              then have "\<not> looping (back_off s1)" by (simp add: looping_def back_off_simps)
              with fin show ?thesis
                unfolding Answered loop_error_again [OF go bad n False] by (simp add: loop_exit)
            qed
          qed
        qed
      qed
    qed
  qed
qed

lemma connect_calm:
  assumes "line_bound P" and "has_auth st" and "EvDisconnect \<notin> set (trace st)"
  shows "case connect l url rj script st of
        Starved s \<Rightarrow> calm s
      | Finished r \<Rightarrow> calm (state_of r) \<or> spent P (Suc 0) (state_of r)"
proof -
  have "calm (enter st)" using assms(3) by (simp add: calm_def enter_def after_disconnect_None)
  from loop_calm [OF assms(1) this, of l url rj script] assms(2) show ?thesis
    by (cases "connect_loop l url rj script (enter st)")
       (auto simp: connect_def try_block_def dest: handler_calm handler_spent [OF assms(1)])
qed

lemma after_disconnect_bound:
  assumes "after_disconnect (trace s) = Some x" and "trace s = pre @ EvDisconnect # post"
  shows "length (filter P post) \<le> length (filter P x)" and "filter is_open x = [] \<Longrightarrow> filter is_open post = []"
proof -
  from after_disconnect_suffix [of pre post] assms obtain ys where "x = ys @ post"
    by (metis option.inject)
  then show "length (filter P post) \<le> length (filter P x)"
    and "filter is_open x = [] \<Longrightarrow> filter is_open post = []" by simp_all
qed

lemma line_bound_callback: "line_bound is_callback"
  by (simp add: line_bound_def)

lemma line_bound_dispatch: "line_bound is_dispatch"
  by (simp add: line_bound_def)

section \<open>The claims\<close>

subsection \<open>C1: the retry counter after a successful attempt\<close>

text \<open>
  C1, as amended. The claim says that a 200 status after failed attempts resets the
  retry counter to 0, so that only consecutive failures count. \<open>_connect\<close> has no such
  reset: reading a response body leaves \<open>retries\<close> as it is, and when a call of
  \<open>_connect\<close> with a credential ends (or waits for its next connection) the counter
  equals the number of back-off sleeps of the whole call, one per failed attempt,
  consecutive or not.
\<close>

theorem retries_count_all_failures:
  assumes "has_auth st"
  shows "retries (final (connect l url rj script st)) =
           int (length (sleeps (trace (final (connect l url rj script st))))) - int (length (sleeps (trace st)))
         \<and> retries (state_of (read_lines l rj ws s)) = retries s"
proof -
  let ?f = "final (connect_loop l url rj script (enter st))"
  from loop_backoff [where st = "enter st" and l = l and url = url and rj = rj and script = script,
      OF enter_backoff(1,2)]
  have "0 \<le> retries ?f" and "sleeps (trace ?f) = sleeps (trace st) @ schedule 0 (nat (retries ?f))"
    by (simp_all add: enter_backoff backoff_inv_def)
  then have "int (length (sleeps (trace ?f))) = int (length (sleeps (trace st))) + retries ?f"
    by (simp add: length_schedule)
  moreover have "retries (state_of (read_lines l rj ws s)) = retries s"
    using read_lines_locals [of s l rj ws] by (simp add: same_locals_def)
  ultimately show ?thesis
    using assms by (simp add: connect_def try_block_backoff)
qed

theorem retries_count_all_failures_witness:
  "retries (final (connect demo_lib ''u'' False [refuses 500, streams [], refuses 500] (fresh 2))) = 2
   \<and> retries (state_of (read_lines demo_lib False [Line ''{}'' Returns]
        ((fresh 2 :: json ctl)\<lparr>retries := 1\<rparr>))) = 1"
  using retries_count_all_failures [of "fresh 2" demo_lib "''u''" False
     "[refuses 500, streams [], refuses 500]" "[Line ''{}'' Returns]" "(fresh 2)\<lparr>retries := 1\<rparr>"]
  by (simp add: run_defs)

text \<open>The claim as stated fails: after an error status and then a 200 whose body ends, the counter
  is 1, not 0; and with \<open>max_retries = 2\<close> a failure, a success and a second failure end
  the call, though no two failures were consecutive.\<close>

theorem retries_reset_counterexample:
  "retries (final (connect demo_lib ''u'' False [refuses 500, streams [Line [] Returns]] (fresh 3))) = 1
   \<and> connect demo_lib ''u'' False [refuses 500, streams [Line [] Returns], refuses 500, streams []] (fresh 2)
     = Finished (Normal \<lparr>running = False, has_auth = True, max_retries = 2, session_closed = True,
         retries = 2, http_error_wait = 20,
         trace = [EvOpen ''u'', EvRequestError 500, EvSleep 5, EvOpen ''u'', EvKeepAlive,
                  EvOpen ''u'', EvRequestError 500, EvSleep 10, EvClose]\<rparr>)"
  by (simp add: run_defs)

subsection \<open>C2: the back-off delays\<close>

text \<open>
  C2, as amended. In a call of \<open>_connect\<close> with a credential, the sleep after the N-th
  failed attempt of the call is \<open>min (5 * 2 ^ (N - 1)) 320\<close>, for every N up to the number
  of failed attempts handled; that number is at most 7, and when it is 7 (the sleep of
  320 has been taken and the doubled delay 640 exceeds the cap) the call has returned,
  whatever \<open>max_retries\<close> is. The delay never stays at the cap for a further attempt.
\<close>

theorem backoff_schedule:
  assumes "has_auth st"
  shows "sleeps (trace (final (connect l url rj script st))) =
           sleeps (trace st) @ map (\<lambda>k. min (5 * 2 ^ k) 320) [0..<nat (retries (final (connect l url rj script st)))]
         \<and> retries (final (connect l url rj script st)) \<le> 7
         \<and> (retries (final (connect l url rj script st)) = 7 \<longrightarrow>
              returned (connect l url rj script st))"
proof -
  let ?c = "connect_loop l url rj script (enter st)"
  let ?f = "final ?c"
  from loop_backoff [where st = "enter st" and l = l and url = url and rj = rj and script = script,
      OF enter_backoff(1,2)]
  have inv: "backoff_inv ?f" and le: "retries ?f \<le> 7"
    and sl: "sleeps (trace ?f) = sleeps (trace st) @ schedule 0 (nat (retries ?f))"
    by (simp_all add: enter_backoff)
  from le have "nat (retries ?f) \<le> 7" by simp
  from schedule_min [OF this] sl
  have 1: "sleeps (trace ?f) = sleeps (trace st) @ map (\<lambda>k. min (5 * 2 ^ k) 320) [0..<nat (retries ?f)]"
    by simp
  have 3: "returned (try_block l url rj script (enter st))" if seven: "retries ?f = 7"
  proof (rule returned_try_block, rule ccontr)
    assume "\<not> returned ?c"
    from unreturned_wait [OF this] have "http_error_wait ?f \<le> 320" by (simp add: enter_backoff)
    moreover from inv seven have "http_error_wait ?f = 5 * 2 ^ 7" by (simp add: backoff_inv_def)
    ultimately show False by simp
  qed
  from 1 le 3 assms show ?thesis
    by (simp add: connect_def try_block_backoff)
qed

theorem backoff_schedule_witness:
  "sleeps (trace (final (connect demo_lib ''u'' False (replicate 7 (refuses 503)) (fresh 9)))) =
     [5, 10, 20, 40, 80, 160, 320]
   \<and> retries (final (connect demo_lib ''u'' False (replicate 7 (refuses 503)) (fresh 9))) = 7
   \<and> returned (connect demo_lib ''u'' False (replicate 7 (refuses 503)) (fresh 9))"
proof -
  have r: "retries (final (connect demo_lib ''u'' False (replicate 7 (refuses 503)) (fresh 9))) = 7"
    by code_simp
  have a: "has_auth (fresh 9 :: json ctl)" by (simp add: fresh_def)
  have t: "trace (fresh 9 :: json ctl) = []" by (simp add: fresh_def)
  from backoff_schedule [OF a, of demo_lib "''u''" False "replicate 7 (refuses 503)"]
  show ?thesis unfolding r by (simp add: t sleeps_def upt_rec)
qed

text \<open>The claim as stated fails: with \<open>max_retries = 10\<close> and ten error responses at
  hand, the controller stops after the seventh.\<close>

theorem backoff_cap_counterexample:
  "retries (final (connect demo_lib ''u'' False (replicate 10 (refuses 503)) (fresh 10))) = 7
   \<and> returned (connect demo_lib ''u'' False (replicate 10 (refuses 503)) (fresh 10))
   \<and> sleeps (trace (final (connect demo_lib ''u'' False (replicate 10 (refuses 503)) (fresh 10)))) =
      [5, 10, 20, 40, 80, 160, 320]"
  by code_simp

subsection \<open>C3: the retry budget is used up\<close>

text \<open>
  C3, as amended. When a call of \<open>_connect\<close> with a credential and a positive
  \<open>max_retries\<close> has counted \<open>max_retries\<close> failed attempts (responses with a status
  other than 200), it has ended: it returned normally, no exception reaches the caller,
  and the last two things it did were the back-off sleep of the last failed attempt and
  the closing of the session, so no connection was opened after that attempt. A transport
  fault (\<open>session.get\<close> raises an instance of \<open>Exception\<close>) is not counted and not
  retried: the first one ends the call, which logs it, closes the session and returns
  normally. No \<open>RetriesExhausted\<close> error exists.
\<close>

theorem exhaustion_returns_silently:
  assumes "has_auth st"
  shows "(0 < max_retries st \<and> max_retries st \<le> retries (final (connect l url rj script st)) \<longrightarrow>
           connect l url rj script st = Finished (Normal (final (connect l url rj script st)))
           \<and> propagated (connect l url rj script st) = None
           \<and> take 2 (rev (trace (final (connect l url rj script st)))) =
               [EvClose, EvSleep (http_error_wait (final (connect l url rj script st)) div 2)])
       \<and> (connect_loop l url rj script (enter st) = Starved st0 \<and> is_Exception e \<longrightarrow>
           connect l url rj (script @ ConnectError e # rest) st =
             Finished (Normal (finally_clause (emit (EvLog e) (emit (EvOpen url) st0)))))"
proof (rule conjI [OF impI impI])
  assume a: "0 < max_retries st \<and> max_retries st \<le> retries (final (connect l url rj script st))"
  let ?c = "connect_loop l url rj script (enter st)"
  have "retries (enter st) < max_retries (enter st) \<or> slept_last (enter st)"
    using a by (simp add: enter_backoff)
  moreover have "max_retries (enter st) \<le> retries (final ?c)"
    using a assms by (simp add: connect_def try_block_backoff enter_backoff)
  ultimately have "returned ?c \<and> slept_last (final ?c)" by (rule loop_exhausted)
  then obtain s where c: "?c = Finished (Normal s)" and s: "slept_last s"
    by (cases ?c rule: returned.cases) auto
  from s have "take 2 (rev (trace s @ [EvClose])) = [EvClose, EvSleep (http_error_wait s div 2)]"
    by (cases "trace s" rule: rev_cases) (auto simp: slept_last_def)
  with c assms
  show "connect l url rj script st = Finished (Normal (final (connect l url rj script st)))
           \<and> propagated (connect l url rj script st) = None
           \<and> take 2 (rev (trace (final (connect l url rj script st)))) =
               [EvClose, EvSleep (http_error_wait (final (connect l url rj script st)) div 2)]"
    by (simp add: connect_def try_block_def finally_clause_def emit_def)
next
  assume b: "connect_loop l url rj script (enter st) = Starved st0 \<and> is_Exception e"
  then have "looping st0" by (blast intro: starved_looping)
  then have "connect_loop l url rj (ConnectError e # rest) st0 =
      Finished (Raised e (emit (EvOpen url) st0))"
    by (rule loop_connect_error)
  with b have "connect_loop l url rj (script @ ConnectError e # rest) (enter st) =
      Finished (Raised e (emit (EvOpen url) st0))"
    by (simp add: loop_append)
  with b assms
  show "connect l url rj (script @ ConnectError e # rest) st =
          Finished (Normal (finally_clause (emit (EvLog e) (emit (EvOpen url) st0))))"
    by (simp add: connect_def try_block_def)
qed

theorem exhaustion_returns_silently_witness:
  "connect demo_lib ''u'' False [refuses 500, refuses 500, refuses 500] (fresh 3) =
     Finished (Normal \<lparr>running = False, has_auth = True, max_retries = 3, session_closed = True,
       retries = 3, http_error_wait = 40,
       trace = [EvOpen ''u'', EvRequestError 500, EvSleep 5, EvOpen ''u'', EvRequestError 500,
                EvSleep 10, EvOpen ''u'', EvRequestError 500, EvSleep 20, EvClose]\<rparr>)
   \<and> connect demo_lib ''u'' False ([refuses 500] @ ConnectError RequestException # [refuses 500])
       (fresh 3) =
     Finished (Normal \<lparr>running = False, has_auth = True, max_retries = 3, session_closed = True,
       retries = 1, http_error_wait = 10,
       trace = [EvOpen ''u'', EvRequestError 500, EvSleep 5, EvOpen ''u'',
                EvLog RequestException, EvClose]\<rparr>)"
proof -
  have r: "final (connect demo_lib ''u'' False [refuses 500, refuses 500, refuses 500] (fresh 3)) =
     \<lparr>running = False, has_auth = True, max_retries = 3, session_closed = True,
       retries = 3, http_error_wait = 40,
       trace = [EvOpen ''u'', EvRequestError 500, EvSleep 5, EvOpen ''u'', EvRequestError 500,
                EvSleep 10, EvOpen ''u'', EvRequestError 500, EvSleep 20, EvClose]\<rparr>"
    by (simp add: run_defs)
  let ?st0 = "\<lparr>running = True, has_auth = True, max_retries = 3, session_closed = False,
       retries = 1, http_error_wait = 10,
       trace = [EvOpen ''u'', EvRequestError 500, EvSleep 5]\<rparr> :: json ctl"
  have a: "has_auth (fresh 3 :: json ctl)" by (simp add: fresh_def)
  have h: "0 < max_retries (fresh 3 :: json ctl) \<and> max_retries (fresh 3 :: json ctl) \<le>
      retries (final (connect demo_lib ''u'' False [refuses 500, refuses 500, refuses 500] (fresh 3)))"
    unfolding r by (simp add: fresh_def)
  have s: "connect_loop demo_lib ''u'' False [refuses 500] (enter (fresh 3)) = Starved ?st0
      \<and> is_Exception RequestException"
    by (simp add: run_defs)
  from exhaustion_returns_silently [OF a, of demo_lib "''u''" False
      "[refuses 500, refuses 500, refuses 500]"] h
  have "connect demo_lib ''u'' False [refuses 500, refuses 500, refuses 500] (fresh 3) =
      Finished (Normal (final (connect demo_lib ''u'' False [refuses 500, refuses 500, refuses 500] (fresh 3))))"
    by blast
  moreover from exhaustion_returns_silently [OF a, of demo_lib "''u''" False "[refuses 500]"] s
  have "connect demo_lib ''u'' False ([refuses 500] @ ConnectError RequestException # [refuses 500])
       (fresh 3) =
     Finished (Normal (finally_clause (emit (EvLog RequestException) (emit (EvOpen ''u'') ?st0))))"
    by blast
  ultimately show ?thesis unfolding r by (simp add: finally_clause_def emit_def)
qed

text \<open>The claim as stated fails: after three error responses with \<open>max_retries = 3\<close>
  the call returns and nothing is raised.\<close>

theorem retries_exhausted_counterexample:
  "propagated (connect demo_lib ''u'' False [refuses 500, refuses 500, refuses 500] (fresh 3)) = None
   \<and> returned (connect demo_lib ''u'' False [refuses 500, refuses 500, refuses 500] (fresh 3))"
  by (simp add: run_defs)

subsection \<open>C4: a payload with an error field, or one that cannot be decoded\<close>

text \<open>
  C4, as amended. Let a call of \<open>_connect\<close> with a credential have reached a response
  with status 200 after any earlier attempts, and let it have read the lines before
  \<open>line\<close> with \<open>running\<close> still true. If \<open>line\<close> is not blank and either \<open>json.loads\<close>
  raises on it or it decodes to an object with an \<open>errors\<close> key, then the exception
  (an instance of \<open>Exception\<close>) ends the session: it is logged, the session is closed,
  and the call returns normally, so nothing reaches the caller. Nothing after the line is
  read, no further connection is opened, and the retry counter is what it was when the
  connection was opened.
\<close>

theorem protocol_error_logged_not_raised:
  assumes "has_auth st"
    and "connect_loop l url rj earlier (enter st) = Starved st0"
    and "read_lines l rj pre (emit (EvOpen url) st0) = Normal s1" and "running s1"
    and "line \<noteq> []"
    and "loads l line = Inl e \<or>
         (\<exists>kvs v. loads l line = Inr (JObj kvs) \<and> map_of kvs ''errors'' = Some v \<and>
                  e = PyTwitterError (Inr v))"
    and "is_Exception e"
  shows "connect l url rj
           (earlier @ Answered \<lparr>status_code = 200, body = pre @ Line line eff # post\<rparr> x # rest) st
         = Finished (Normal (finally_clause (emit (EvLog e) (emit (EvData line) s1))))
       \<and> retries (finally_clause (emit (EvLog e) (emit (EvData line) s1))) = retries st0"
proof -
  from assms(6) have "on_data l eff line rj (emit (EvData line) s1) = Raised e (emit (EvData line) s1)"
    by (auto simp: on_data_undecodable on_data_errors)
  from fatal_line [OF assms(1-5) this] assms(7)
  have "connect l url rj
           (earlier @ Answered \<lparr>status_code = 200, body = pre @ Line line eff # post\<rparr> x # rest) st
         = Finished (Normal (finally_clause (emit (EvLog e) (emit (EvData line) s1))))"
    by simp
  moreover have "same_locals st0 s1"
    using same_locals_trans [OF same_locals_emit read_lines_locals, of "EvOpen url" st0 l rj pre] assms(3)
    by simp
  ultimately show ?thesis
    by (simp add: finally_clause_def emit_def same_locals_def)
qed

theorem protocol_error_logged_not_raised_witness:
  "connect demo_lib ''u'' False
     ([refuses 500] @
      Answered \<lparr>status_code = 200,
                body = [Line [] Returns] @ Line ''{\"errors\": 1}'' Returns # [Line ''{}'' Returns]\<rparr> Returns
        # [refuses 500])
     (fresh 3)
   = Finished (Normal \<lparr>running = False, has_auth = True, max_retries = 3, session_closed = True,
       retries = 1, http_error_wait = 10,
       trace = [EvOpen ''u'', EvRequestError 500, EvSleep 5, EvOpen ''u'', EvKeepAlive,
                EvData ''{\"errors\": 1}'', EvLog (PyTwitterError (Inr (JNum 1))), EvClose]\<rparr>)"
proof -
  let ?st0 = "\<lparr>running = True, has_auth = True, max_retries = 3, session_closed = False,
       retries = 1, http_error_wait = 10,
       trace = [EvOpen ''u'', EvRequestError 500, EvSleep 5]\<rparr> :: json ctl"
  let ?s1 = "\<lparr>running = True, has_auth = True, max_retries = 3, session_closed = False,
       retries = 1, http_error_wait = 10,
       trace = [EvOpen ''u'', EvRequestError 500, EvSleep 5, EvOpen ''u'', EvKeepAlive]\<rparr> :: json ctl"
  have 1: "has_auth (fresh 3 :: json ctl)" by (simp add: fresh_def)
  have 2: "connect_loop demo_lib ''u'' False [refuses 500] (enter (fresh 3)) = Starved ?st0"
    by (simp add: run_defs)
  have 3: "read_lines demo_lib False [Line [] Returns] (emit (EvOpen ''u'') ?st0) = Normal ?s1"
    by (simp add: run_defs)
  have 4: "running ?s1" by simp
  have 5: "''{\"errors\": 1}'' \<noteq> []" by simp
  have 6: "loads demo_lib ''{\"errors\": 1}'' = Inl (PyTwitterError (Inr (JNum 1))) \<or>
         (\<exists>kvs v. loads demo_lib ''{\"errors\": 1}'' = Inr (JObj kvs) \<and> map_of kvs ''errors'' = Some v \<and>
                  PyTwitterError (Inr (JNum 1)) = PyTwitterError (Inr v))"
    by (simp add: demo_lib_def)
  have 7: "is_Exception (PyTwitterError (Inr (JNum 1)))" by simp
  from protocol_error_logged_not_raised [OF 1 2 3 4 5 6 7, of Returns "[Line ''{}'' Returns]" Returns "[refuses 500]"]
  show ?thesis by (simp add: finally_clause_def emit_def)
qed

text \<open>The claim as stated fails: neither an \<open>errors\<close> payload nor an undecodable line
  makes \<open>_connect\<close> raise.\<close>

theorem protocol_error_surfaced_counterexample:
  "propagated (connect demo_lib ''u'' False [streams [Line ''{\"errors\": 1}'' Returns]] (fresh 3)) = None
   \<and> returned (connect demo_lib ''u'' False [streams [Line ''{\"errors\": 1}'' Returns]] (fresh 3))
   \<and> propagated (connect demo_lib ''u'' False [streams [Line ''<html>'' Returns]] (fresh 3)) = None
   \<and> returned (connect demo_lib ''u'' False [streams [Line ''<html>'' Returns]] (fresh 3))"
  by (simp add: run_defs)

subsection \<open>C5: a payload with an \<open>errors\<close> field\<close>

text \<open>
  C5. Let a call of \<open>_connect\<close> with a credential have reached a response with status
  200 after any earlier attempts, and let it have read the lines before \<open>line\<close> with
  \<open>running\<close> still true. If \<open>line\<close> is not blank and decodes to an object with an
  \<open>errors\<close> key, then after the hand-over of the line to \<open>on_data\<close> the call only logs
  the \<open>PyTwitterError\<close> and closes the session: \<open>on_tweet\<close> is not invoked for the line,
  the call ends with \<open>running\<close> false, and the retry counter is what it was when the
  connection was opened.
\<close>

theorem errors_payload_ends_session:
  assumes "has_auth st"
    and "connect_loop l url rj earlier (enter st) = Starved st0"
    and "read_lines l rj pre (emit (EvOpen url) st0) = Normal s1" and "running s1"
    and "line \<noteq> []"
    and "loads l line = Inr (JObj kvs)" and "map_of kvs ''errors'' = Some v"
  shows "returned (connect l url rj
           (earlier @ Answered \<lparr>status_code = 200, body = pre @ Line line eff # post\<rparr> x # rest) st)
       \<and> trace (final (connect l url rj
           (earlier @ Answered \<lparr>status_code = 200, body = pre @ Line line eff # post\<rparr> x # rest) st))
         = trace s1 @ [EvData line, EvLog (PyTwitterError (Inr v)), EvClose]
       \<and> retries (final (connect l url rj
           (earlier @ Answered \<lparr>status_code = 200, body = pre @ Line line eff # post\<rparr> x # rest) st))
         = retries st0
       \<and> \<not> running (final (connect l url rj
           (earlier @ Answered \<lparr>status_code = 200, body = pre @ Line line eff # post\<rparr> x # rest) st))"
proof -
  have "on_data l eff line rj (emit (EvData line) s1) =
          Raised (PyTwitterError (Inr v)) (emit (EvData line) s1)"
    using assms(6,7) by (rule on_data_errors)
  from fatal_line [OF assms(1-5) this]
  have c: "connect l url rj
           (earlier @ Answered \<lparr>status_code = 200, body = pre @ Line line eff # post\<rparr> x # rest) st
         = Finished (Normal (finally_clause (emit (EvLog (PyTwitterError (Inr v))) (emit (EvData line) s1))))"
    by simp
  have "same_locals st0 s1"
    using same_locals_trans [OF same_locals_emit read_lines_locals, of "EvOpen url" st0 l rj pre] assms(3)
    by simp
  then show ?thesis
    unfolding c by (simp add: finally_clause_def emit_def same_locals_def)
qed

theorem errors_payload_ends_session_witness:
  "returned (connect demo_lib ''u'' False
     ([] @ Answered \<lparr>status_code = 200,
                body = [Line ''{}'' Returns] @ Line ''{\"errors\": 1}'' Disconnects # [Line [] Returns]\<rparr> Returns
        # [streams []])
     (fresh 3))
   \<and> trace (final (connect demo_lib ''u'' False
     ([] @ Answered \<lparr>status_code = 200,
                body = [Line ''{}'' Returns] @ Line ''{\"errors\": 1}'' Disconnects # [Line [] Returns]\<rparr> Returns
        # [streams []])
     (fresh 3)))
     = [EvOpen ''u'', EvData ''{}'', EvTweet (Inl (JObj [])),
        EvData ''{\"errors\": 1}'', EvLog (PyTwitterError (Inr (JNum 1))), EvClose]
   \<and> retries (final (connect demo_lib ''u'' False
     ([] @ Answered \<lparr>status_code = 200,
                body = [Line ''{}'' Returns] @ Line ''{\"errors\": 1}'' Disconnects # [Line [] Returns]\<rparr> Returns
        # [streams []])
     (fresh 3))) = 0"
proof -
  let ?s1 = "\<lparr>running = True, has_auth = True, max_retries = 3, session_closed = False,
       retries = 0, http_error_wait = 5,
       trace = [EvOpen ''u'', EvData ''{}'', EvTweet (Inl (JObj []))]\<rparr> :: json ctl"
  have 1: "has_auth (fresh 3 :: json ctl)" by (simp add: fresh_def)
  have 2: "connect_loop demo_lib ''u'' False [] (enter (fresh 3)) = Starved (enter (fresh 3))"
    by (simp add: run_defs)
  have 3: "read_lines demo_lib False [Line ''{}'' Returns] (emit (EvOpen ''u'') (enter (fresh 3))) = Normal ?s1"
    by (simp add: run_defs)
  have 4: "running ?s1" by simp
  have 5: "''{\"errors\": 1}'' \<noteq> []" by simp
  have 6: "loads demo_lib ''{\"errors\": 1}'' = Inr (JObj [(''errors'', JNum 1)])"
    by (simp add: demo_lib_def)
  have 7: "map_of [(''errors'', JNum 1)] ''errors'' = Some (JNum 1)" by simp
  from errors_payload_ends_session [OF 1 2 3 4 5 6 7, of Disconnects "[Line [] Returns]" Returns "[streams []]"]
  show ?thesis by (simp add: enter_def fresh_def)
qed

subsection \<open>C6: lines are dispatched in wire order\<close>



subsection \<open>C7: after \<open>disconnect\<close>\<close>

text \<open>
  C7. In a call of \<open>_connect\<close> with a credential, whatever follows a call of
  \<open>disconnect\<close> (by a callback or by another thread) holds at most one more line taken
  up by the read loop and at most one more invocation of \<open>on_tweet\<close> or
  \<open>on_keep_alive\<close>; no connection is opened after it, and the call has ended.
\<close>

theorem at_most_one_line_after_disconnect:
  assumes "has_auth st" and "EvDisconnect \<notin> set (trace st)"
    and "trace (final (connect l url rj script st)) = pre @ EvDisconnect # post"
  shows "length (filter is_dispatch post) \<le> 1 \<and> length (filter is_callback post) \<le> 1
       \<and> filter is_open post = [] \<and> ended (connect l url rj script st)"
proof -
  let ?c = "connect l url rj script st"
  have nc: "\<not> calm (final ?c)"
    using assms(3) by (simp add: calm_def after_disconnect_None)
  have sp: "spent P (Suc 0) (final ?c) \<and> ended ?c" if "line_bound P" for P
    using connect_calm [OF that assms(1,2), of l url rj script] nc
    by (cases ?c) auto
  have b: "length (filter P post) \<le> 1 \<and> filter is_open post = []" if "line_bound P" for P
  proof -
    from sp [OF that] obtain x where x: "after_disconnect (trace (final ?c)) = Some x"
      and le: "length (filter P x) \<le> Suc 0" and op: "filter is_open x = []"
      by (auto simp: spent_def split: option.splits)
    from after_disconnect_bound(1) [OF x assms(3), of P] after_disconnect_bound(2) [OF x assms(3)] le op
    show ?thesis by simp
  qed
  from b [OF line_bound_dispatch] b [OF line_bound_callback] sp [OF line_bound_dispatch]
  show ?thesis by simp
qed


theorem at_most_one_line_after_disconnect_witness:
  "trace (final (connect demo_lib ''u'' False
      [streams [Line ''{}'' Returns, Cancel, Line [] Returns, Line ''{}'' Returns], streams []]
      (fresh 3)))
     = [EvOpen ''u'', EvData ''{}'', EvTweet (Inl (JObj []))] @ EvDisconnect # [EvKeepAlive, EvClose]
   \<and> length (filter is_dispatch [EvKeepAlive, EvClose :: json event]) \<le> 1
   \<and> length (filter is_callback [EvKeepAlive, EvClose :: json event]) \<le> 1
   \<and> filter is_open [EvKeepAlive, EvClose :: json event] = []
   \<and> ended (connect demo_lib ''u'' False
      [streams [Line ''{}'' Returns, Cancel, Line [] Returns, Line ''{}'' Returns], streams []]
      (fresh 3))"
proof -
  have 1: "has_auth (fresh 3 :: json ctl)" by (simp add: fresh_def)
  have 2: "EvDisconnect \<notin> set (trace (fresh 3 :: json ctl))" by (simp add: fresh_def)
  have 3: "trace (final (connect demo_lib ''u'' False
      [streams [Line ''{}'' Returns, Cancel, Line [] Returns, Line ''{}'' Returns], streams []]
      (fresh 3)))
     = [EvOpen ''u'', EvData ''{}'', EvTweet (Inl (JObj []))] @ EvDisconnect # [EvKeepAlive, EvClose]"
    by (simp add: run_defs)
  from at_most_one_line_after_disconnect [OF 1 2 3] 3 show ?thesis by blast
qed

subsection \<open>C8: the session is closed on every exit\<close>

text \<open>
  C8. Whenever a call of \<open>_connect\<close> with a credential ends, by returning or by an
  exception that passes the handler, the session has been closed and \<open>running\<close> is
  false; closing the session is the last thing the call did.
\<close>

theorem session_closed_on_every_exit:
  assumes "has_auth st" and "connect l url rj script st = Finished r"
  shows "session_closed (state_of r) \<and> \<not> running (state_of r) \<and> last (trace (state_of r)) = EvClose"
proof (cases "connect_loop l url rj script (enter st)")
  case (Starved s)
  with assms show ?thesis by (simp add: connect_def try_block_def)
next
  case (Finished r0)
  with assms have r: "r = handler r0" by (simp add: connect_def try_block_def)
  show ?thesis unfolding r by (cases r0) (simp_all add: finally_clause_def emit_def)
qed

theorem session_closed_on_every_exit_witness:
  "connect demo_lib ''u'' False [streams [Line ''{}'' (Raises KeyboardInterrupt)]] (fresh 3) =
     Finished (Raised KeyboardInterrupt
      \<lparr>running = False, has_auth = True, max_retries = 3, session_closed = True,
       retries = 0, http_error_wait = 5,
       trace = [EvOpen ''u'', EvData ''{}'', EvTweet (Inl (JObj [])), EvClose]\<rparr>)
   \<and> session_closed (state_of (Raised KeyboardInterrupt
      \<lparr>running = False, has_auth = True, max_retries = 3, session_closed = True,
       retries = 0, http_error_wait = 5,
       trace = [EvOpen ''u'', EvData ''{}'', EvTweet (Inl (JObj [])), EvClose :: json event]\<rparr>))
   \<and> connect demo_lib ''u'' False [refuses 404] (fresh 1) =
     Finished (Normal
      \<lparr>running = False, has_auth = True, max_retries = 1, session_closed = True,
       retries = 1, http_error_wait = 10,
       trace = [EvOpen ''u'', EvRequestError 404, EvSleep 5, EvClose]\<rparr>)"
proof -
  have a: "has_auth (fresh 3 :: json ctl)" by (simp add: fresh_def)
  have c: "connect demo_lib ''u'' False [streams [Line ''{}'' (Raises KeyboardInterrupt)]] (fresh 3) =
     Finished (Raised KeyboardInterrupt
      \<lparr>running = False, has_auth = True, max_retries = 3, session_closed = True,
       retries = 0, http_error_wait = 5,
       trace = [EvOpen ''u'', EvData ''{}'', EvTweet (Inl (JObj [])), EvClose]\<rparr>)"
    by (simp add: run_defs)
  have d: "connect demo_lib ''u'' False [refuses 404] (fresh 1) =
     Finished (Normal
      \<lparr>running = False, has_auth = True, max_retries = 1, session_closed = True,
       retries = 1, http_error_wait = 10,
       trace = [EvOpen ''u'', EvRequestError 404, EvSleep 5, EvClose :: json event]\<rparr>)"
    by (simp add: run_defs)
  from session_closed_on_every_exit [OF a c] c d show ?thesis by blast
qed

subsection \<open>C9: a second call while the flag is set\<close>



subsection \<open>C10: which exceptions \<open>_connect\<close> swallows\<close>




end
